theory Spec2Isabelle
  imports Main
begin

section \<open>The Redis cache handler of basechat (cache-handler.cjs)\<close>

text \<open>
  The handler is a JavaScript class with three fields (\<open>redisClient\<close>, \<open>isConnected\<close>,
  \<open>connectionPromise\<close>) that talks to a Redis server through the node-redis client.
  The embedding keeps the handler's fields and the server's key space in one record
  \<open>world\<close>, and passes it through every operation. What lies outside the repository is
  an explicit parameter or a small documented model:
  \<^item> \<open>JSON.stringify\<close> and \<open>JSON.parse\<close> are fields of the environment \<open>env\<close>;
  \<^item> whether the n-th interaction with the server (a socket attempt, a command, a
    transaction) fails is the field \<open>faults\<close> of \<open>env\<close>;
  \<^item> the Redis commands the handler issues (GET, SET EX, SADD, EXPIRE, SMEMBERS, DEL,
    MULTI/EXEC) follow the Redis command reference;
  \<^item> time is a parameter \<open>now\<close> (milliseconds) of each operation, read both as
    \<open>Date.now()\<close> and as the server's clock; one operation runs at one instant.
  Console output is not modelled. JavaScript numbers are modelled by the integers.
\<close>

subsection \<open>JavaScript values\<close>

datatype jsval =
    JUndefined
  | JNull
  | JBool bool
  | JNum int
  | JStr string
  | JArr "jsval list"
  | JObj "(string \<times> jsval) list"

datatype error = TypeError | SyntaxError | StringifyError | ReplyError | ConnectionError

fun typeof :: "jsval \<Rightarrow> string" where
  "typeof JUndefined = ''undefined''"
| "typeof JNull = ''object''"
| "typeof (JBool b) = ''boolean''"
| "typeof (JNum n) = ''number''"
| "typeof (JStr s) = ''string''"
| "typeof (JArr xs) = ''object''"
| "typeof (JObj ps) = ''object''"

fun isArray :: "jsval \<Rightarrow> bool" where
  "isArray (JArr xs) = True"
| "isArray v = False"

fun string_of_nat :: "nat \<Rightarrow> string" where
  "string_of_nat n =
     (if n < 10 then [''0123456789'' ! n]
      else string_of_nat (n div 10) @ [''0123456789'' ! (n mod 10)])"

declare string_of_nat.simps [simp del]

definition string_of_int :: "int \<Rightarrow> string" where
  "string_of_int i = (if i < 0 then ''-'' @ string_of_nat (nat (- i)) else string_of_nat (nat i))"

fun join_comma :: "string list \<Rightarrow> string" where
  "join_comma [] = ''''"
| "join_comma [s] = s"
| "join_comma (s # t # ss) = s @ '','' @ join_comma (t # ss)"

text \<open>
  \<open>to_string\<close> is the conversion a template literal applies to an interpolated value
  (\<open>`${TAG_INDEX_PREFIX}${tag}`\<close>): a string is itself, \<open>undefined\<close> is "undefined", an
  array is its elements joined by commas with \<open>null\<close> and \<open>undefined\<close> elements empty.
\<close>

fun to_string :: "jsval \<Rightarrow> string" and elem_strings :: "jsval list \<Rightarrow> string list" where
  "to_string JUndefined = ''undefined''"
| "to_string JNull = ''null''"
| "to_string (JBool b) = (if b then ''true'' else ''false'')"
| "to_string (JNum n) = string_of_int n"
| "to_string (JStr s) = s"
| "to_string (JArr xs) = join_comma (elem_strings xs)"
| "to_string (JObj ps) = ''[object Object]''"
| "elem_strings [] = []"
| "elem_strings (x # xs) =
     (if x = JUndefined \<or> x = JNull then '''' else to_string x) # elem_strings xs"

text \<open>
  Reading a property: \<open>null.p\<close> and \<open>undefined.p\<close> throw a TypeError; an object gives the
  property's value or \<open>undefined\<close>; the handler reads only \<open>tags\<close> and \<open>revalidate\<close>,
  which no primitive and no array has.
\<close>

definition obj_get :: "(string \<times> jsval) list \<Rightarrow> string \<Rightarrow> jsval" where
  "obj_get ps p = (case map_of ps p of None \<Rightarrow> JUndefined | Some v \<Rightarrow> v)"

fun get_prop :: "jsval \<Rightarrow> string \<Rightarrow> error + jsval" where
  "get_prop JUndefined p = Inl TypeError"
| "get_prop JNull p = Inl TypeError"
| "get_prop (JObj ps) p = Inr (obj_get ps p)"
| "get_prop v p = Inr JUndefined"

definition indexed :: "jsval list \<Rightarrow> (string \<times> jsval) list" where
  "indexed xs = zip (map string_of_nat [0 ..< length xs]) xs"

text \<open>Object spread \<open>{...x}\<close>: the own enumerable properties; none for \<open>null\<close>,
  \<open>undefined\<close>, booleans and numbers.\<close>

fun spread :: "jsval \<Rightarrow> (string \<times> jsval) list" where
  "spread (JObj ps) = ps"
| "spread (JArr xs) = indexed xs"
| "spread (JStr s) = indexed (map (\<lambda>c. JStr [c]) s)"
| "spread v = []"

text \<open>\<open>{...x, p: v}\<close>: an existing property keeps its place and takes the new value, a
  new one is appended.\<close>

fun obj_put :: "(string \<times> jsval) list \<Rightarrow> string \<Rightarrow> jsval \<Rightarrow> (string \<times> jsval) list" where
  "obj_put [] p v = [(p, v)]"
| "obj_put ((q, u) # ps) p v = (if q = p then (p, v) # ps else (q, u) # obj_put ps p v)"

text \<open>\<open>for (const x of v)\<close>: arrays and strings are iterable, the other modelled values
  are not.\<close>

fun iterate :: "jsval \<Rightarrow> error + jsval list" where
  "iterate (JArr xs) = Inr xs"
| "iterate (JStr s) = Inr (map (\<lambda>c. JStr [c]) s)"
| "iterate v = Inl TypeError"

subsection \<open>Constants and tag builders\<close>

definition DEFAULT_TTL :: int where
  "DEFAULT_TTL = 84600"

definition CACHE_KEY_PREFIX :: string where
  "CACHE_KEY_PREFIX = ''basechat:''"

definition TAG_INDEX_PREFIX :: string where
  "TAG_INDEX_PREFIX = ''basechat:tags:''"

definition buildTenantUserTag :: "string \<Rightarrow> string \<Rightarrow> string" where
  "buildTenantUserTag userId slug = ''tenant:'' @ slug @ '':user:'' @ userId"

definition buildTenantTag :: "string \<Rightarrow> string" where
  "buildTenantTag slug = ''tenant:'' @ slug"

definition buildTags :: "string \<Rightarrow> string \<Rightarrow> string list" where
  "buildTags userId slug = [buildTenantUserTag userId slug, buildTenantTag slug]"

definition getTagIndexKey :: "jsval \<Rightarrow> string" where
  "getTagIndexKey tag = TAG_INDEX_PREFIX @ to_string tag"

subsection \<open>The Redis server\<close>

text \<open>
  A key holds a string or a set of strings, and optionally an expiry: the instant (in
  milliseconds) from which the key no longer exists. A set is kept as the list of its
  members in insertion order, without repetition.
\<close>

datatype rvalue = RString string | RSet "string list"

record rentry =
  rval :: rvalue
  expires :: "int option"

type_synonym rstore = "string \<Rightarrow> rentry option"

definition live :: "int \<Rightarrow> rentry \<Rightarrow> bool" where
  "live now e = (case expires e of None \<Rightarrow> True | Some t \<Rightarrow> now < t)"

definition rlookup :: "rstore \<Rightarrow> int \<Rightarrow> string \<Rightarrow> rentry option" where
  "rlookup s now k = (case s k of None \<Rightarrow> None | Some e \<Rightarrow> if live now e then Some e else None)"

text \<open>GET: the string, nil for a missing key, WRONGTYPE on a set.\<close>

definition redis_get :: "rstore \<Rightarrow> int \<Rightarrow> string \<Rightarrow> error + string option" where
  "redis_get s now k =
     (case rlookup s now k of
        None \<Rightarrow> Inr None
      | Some e \<Rightarrow> (case rval e of RString v \<Rightarrow> Inr (Some v) | RSet ms \<Rightarrow> Inl ReplyError))"

text \<open>SET key value EX seconds: the expire time must be a positive integer; the key is
  overwritten whatever it held.\<close>

definition redis_set :: "rstore \<Rightarrow> int \<Rightarrow> string \<Rightarrow> string \<Rightarrow> jsval \<Rightarrow> error + rstore" where
  "redis_set s now k v ex =
     (case ex of
        JNum n \<Rightarrow>
          (if 0 < n then Inr (s(k \<mapsto> \<lparr>rval = RString v, expires = Some (now + n * 1000)\<rparr>))
           else Inl ReplyError)
      | _ \<Rightarrow> Inl ReplyError)"

text \<open>SMEMBERS: the members, none for a missing key, WRONGTYPE on a string.\<close>

definition redis_smembers :: "rstore \<Rightarrow> int \<Rightarrow> string \<Rightarrow> error + string list" where
  "redis_smembers s now k =
     (case rlookup s now k of
        None \<Rightarrow> Inr []
      | Some e \<Rightarrow> (case rval e of RSet ms \<Rightarrow> Inr ms | RString v \<Rightarrow> Inl ReplyError))"

datatype rcmd = Del string | SAdd string string | Expire string jsval

text \<open>
  One queued command of a transaction; the boolean says that the command replied with an
  error. SADD creates the set (without expiry) when the key is missing and fails with
  WRONGTYPE on a string; EXPIRE does nothing on a missing key, deletes the key for a
  non-positive time and fails on a time that is not an integer; DEL never fails.
\<close>

fun redis_apply :: "int \<Rightarrow> rcmd \<Rightarrow> rstore \<Rightarrow> bool \<times> rstore" where
  "redis_apply now (Del k) s = (False, s(k := None))"
| "redis_apply now (SAdd k m) s =
     (case rlookup s now k of
        None \<Rightarrow> (False, s(k \<mapsto> \<lparr>rval = RSet [m], expires = None\<rparr>))
      | Some e \<Rightarrow>
          (case rval e of
             RSet ms \<Rightarrow> (False, s(k \<mapsto> e\<lparr>rval := RSet (if m \<in> set ms then ms else ms @ [m])\<rparr>))
           | RString v \<Rightarrow> (True, s)))"
| "redis_apply now (Expire k ex) s =
     (case ex of
        JNum n \<Rightarrow>
          (case rlookup s now k of
             None \<Rightarrow> (False, s)
           | Some e \<Rightarrow>
               if n \<le> 0 then (False, s(k := None))
               else (False, s(k \<mapsto> e\<lparr>expires := Some (now + n * 1000)\<rparr>)))
      | _ \<Rightarrow> (True, s))"

text \<open>EXEC runs every queued command in order; a command that fails does not stop the
  ones after it.\<close>

fun redis_exec :: "int \<Rightarrow> rcmd list \<Rightarrow> rstore \<Rightarrow> bool \<times> rstore" where
  "redis_exec now [] s = (False, s)"
| "redis_exec now (c # cs) s =
     (case redis_apply now c s of
        (err, s') \<Rightarrow> (case redis_exec now cs s' of (err', s'') \<Rightarrow> (err \<or> err', s'')))"

subsection \<open>The environment and the handler's state\<close>

datatype outcome = Ok | Fail

record env =
  faults :: "nat \<Rightarrow> outcome"
  JSON_stringify :: "jsval \<Rightarrow> string option"
  JSON_parse :: "string \<Rightarrow> jsval option"

text \<open>
  \<open>redisClient\<close> says that the client object exists (the field is not \<open>null\<close>).
  \<open>connectionPromise\<close> is \<open>None\<close> for \<open>null\<close>; a pending promise is represented by the
  value it will settle with. \<open>connects\<close> counts the calls of \<open>redisClient.connect()\<close>,
  \<open>sockets\<close> the socket attempts they made, \<open>calls\<close> every interaction with the server
  (the index into \<open>faults\<close>).
\<close>

record world =
  redisClient :: bool
  isConnected :: bool
  connectionPromise :: "bool option"
  connects :: nat
  sockets :: nat
  calls :: nat
  store :: rstore

text \<open>The constructor: no client without \<open>REDIS_URL\<close> (undefined or empty), none when
  \<open>createClient\<close> throws.\<close>

definition CacheHandler_constructor :: "string option \<Rightarrow> bool \<Rightarrow> rstore \<Rightarrow> world" where
  "CacheHandler_constructor redisUrl createClient_throws st =
     (let this = \<lparr>redisClient = False, isConnected = False, connectionPromise = None,
                   connects = 0, sockets = 0, calls = 0, store = st\<rparr>
      in if redisUrl = None \<or> redisUrl = Some '''' then this
         else if createClient_throws then this\<lparr>redisClient := False\<rparr>
         else this\<lparr>redisClient := True\<rparr>)"

text \<open>The three listeners installed by the constructor.\<close>

definition on_error :: "world \<Rightarrow> world" where
  "on_error w = w\<lparr>isConnected := False\<rparr>"

definition on_connect :: "world \<Rightarrow> world" where
  "on_connect w = w\<lparr>isConnected := True\<rparr>"

definition on_disconnect :: "world \<Rightarrow> world" where
  "on_disconnect w = w\<lparr>isConnected := False\<rparr>"

text \<open>\<open>reconnectStrategy\<close>: \<open>None\<close> is \<open>false\<close> (stop), \<open>Some d\<close> a delay of d ms.\<close>

definition reconnectStrategy :: "nat \<Rightarrow> nat option" where
  "reconnectStrategy retries = (if retries > 3 then None else Some (min (retries * 100) 3000))"

text \<open>
  \<open>redisClient.connect()\<close> as node-redis documents it: the client opens a socket; when
  the attempt fails it asks \<open>reconnectStrategy\<close> with the number of retries so far, waits
  and tries again, or gives up (the promise rejects) when the strategy says stop. The
  result is the outcome and the index of the next interaction.
\<close>

function socket_loop :: "env \<Rightarrow> nat \<Rightarrow> nat \<Rightarrow> bool \<times> nat" where
  "socket_loop e c retries =
     (case faults e c of
        Ok \<Rightarrow> (True, c + 1)
      | Fail \<Rightarrow>
          (case reconnectStrategy retries of
             None \<Rightarrow> (False, c + 1)
           | Some delay \<Rightarrow> socket_loop e (c + 1) (retries + 1)))"
  by pat_completeness auto
termination
  by (relation "measure (\<lambda>(e, c, retries). 4 - retries)")
     (auto simp: reconnectStrategy_def split: if_splits)

declare socket_loop.simps [simp del]

definition client_connect :: "env \<Rightarrow> world \<Rightarrow> bool \<times> world" where
  "client_connect e w =
     (case socket_loop e (calls w) 0 of
        (ok, c') \<Rightarrow>
          (ok, w\<lparr>connects := connects w + 1, sockets := sockets w + (c' - calls w), calls := c'\<rparr>))"

text \<open>A command sent through the client: the environment decides whether it reaches the
  server at all; a command that does is answered by the server.\<close>

definition tick :: "world \<Rightarrow> world" where
  "tick w = w\<lparr>calls := calls w + 1\<rparr>"

definition client_get :: "env \<Rightarrow> world \<Rightarrow> int \<Rightarrow> string \<Rightarrow> (error + string option) \<times> world" where
  "client_get e w now k =
     (case faults e (calls w) of
        Fail \<Rightarrow> (Inl ConnectionError, tick w)
      | Ok \<Rightarrow> (redis_get (store w) now k, tick w))"

definition client_set :: "env \<Rightarrow> world \<Rightarrow> int \<Rightarrow> string \<Rightarrow> string \<Rightarrow> jsval \<Rightarrow> (error + unit) \<times> world" where
  "client_set e w now k v ex =
     (case faults e (calls w) of
        Fail \<Rightarrow> (Inl ConnectionError, tick w)
      | Ok \<Rightarrow>
          (case redis_set (store w) now k v ex of
             Inl err \<Rightarrow> (Inl err, tick w)
           | Inr s' \<Rightarrow> (Inr (), (tick w)\<lparr>store := s'\<rparr>)))"

definition client_sMembers :: "env \<Rightarrow> world \<Rightarrow> int \<Rightarrow> string \<Rightarrow> (error + string list) \<times> world" where
  "client_sMembers e w now k =
     (case faults e (calls w) of
        Fail \<Rightarrow> (Inl ConnectionError, tick w)
      | Ok \<Rightarrow> (redis_smembers (store w) now k, tick w))"

text \<open>\<open>multi.exec()\<close>: one round trip; it rejects when the transaction does not reach
  the server (nothing is applied) or when a queued command replied with an error (the
  others are applied).\<close>

definition multi_exec :: "env \<Rightarrow> world \<Rightarrow> int \<Rightarrow> rcmd list \<Rightarrow> (error + unit) \<times> world" where
  "multi_exec e w now cmds =
     (case faults e (calls w) of
        Fail \<Rightarrow> (Inl ConnectionError, tick w)
      | Ok \<Rightarrow>
          (case redis_exec now cmds (store w) of
             (err, s') \<Rightarrow> (if err then Inl ReplyError else Inr (), (tick w)\<lparr>store := s'\<rparr>)))"

definition client_quit :: "env \<Rightarrow> world \<Rightarrow> (error + unit) \<times> world" where
  "client_quit e w =
     (case faults e (calls w) of
        Fail \<Rightarrow> (Inl ConnectionError, tick w)
      | Ok \<Rightarrow> (Inr (), tick w))"

subsection \<open>The handler's operations\<close>

text \<open>
  \<open>try { ... } catch (error) { console.warn(...); return d }\<close>: an error thrown in the
  body becomes the normal result \<open>d\<close>.
\<close>

definition try_catch :: "(error + 'a) \<times> world \<Rightarrow> 'a \<Rightarrow> (error + 'a) \<times> world" where
  "try_catch r d = (case r of (Inl err, w) \<Rightarrow> (Inr d, w) | (Inr v, w) \<Rightarrow> (Inr v, w))"

text \<open>
  \<open>ensureConnected\<close> up to its first suspension. It returns at once (\<open>Now\<close>) without a
  client or when connected, returns the pending promise (\<open>Later\<close>) when there is one,
  and otherwise calls \<open>redisClient.connect()\<close> and stores the new promise. JavaScript
  runs this part without interruption.
\<close>

datatype connecting = Now bool | Later bool

definition ensureConnected_call :: "env \<Rightarrow> world \<Rightarrow> connecting \<times> world" where
  "ensureConnected_call e w =
     (if \<not> redisClient w then (Now False, w)
      else if isConnected w then (Now True, w)
      else (case connectionPromise w of
              Some p \<Rightarrow> (Later p, w)
            | None \<Rightarrow>
                (case client_connect e w of
                   (ok, w') \<Rightarrow> (Later ok, w'\<lparr>connectionPromise := Some ok\<rparr>))))"

text \<open>The rest of the inner async function, run when \<open>connect()\<close> settles: the flag is
  set to the outcome and, in \<open>finally\<close>, the promise is cleared.\<close>

definition connect_settled :: "world \<Rightarrow> world" where
  "connect_settled w =
     (case connectionPromise w of
        None \<Rightarrow> w
      | Some ok \<Rightarrow> w\<lparr>isConnected := ok, connectionPromise := None\<rparr>)"

text \<open>\<open>await this.ensureConnected()\<close> by a caller that runs alone.\<close>

definition ensureConnected :: "env \<Rightarrow> world \<Rightarrow> bool \<times> world" where
  "ensureConnected e w =
     (case ensureConnected_call e w of
        (Now b, w') \<Rightarrow> (b, w')
      | (Later p, w') \<Rightarrow> (p, connect_settled w'))"

definition get_try :: "env \<Rightarrow> world \<Rightarrow> int \<Rightarrow> string \<Rightarrow> (error + jsval) \<times> world" where
  "get_try e w now prefixedKey =
     (case ensureConnected e w of
        (connected, w1) \<Rightarrow>
          if \<not> connected then (Inr JUndefined, w1)
          else (case client_get e w1 now prefixedKey of
                  (Inl err, w2) \<Rightarrow> (Inl err, w2)
                | (Inr data, w2) \<Rightarrow>
                    (case data of
                       None \<Rightarrow> (Inr JUndefined, w2)
                     | Some txt \<Rightarrow>
                         if txt = '''' then (Inr JUndefined, w2)
                         else (case JSON_parse e txt of
                                 None \<Rightarrow> (Inl SyntaxError, w2)
                               | Some v \<Rightarrow> (Inr v, w2)))))"

definition get :: "env \<Rightarrow> world \<Rightarrow> int \<Rightarrow> string \<Rightarrow> (error + jsval) \<times> world" where
  "get e w now key =
     (let prefixedKey = CACHE_KEY_PREFIX @ key
      in try_catch (get_try e w now prefixedKey) JUndefined)"

definition tag_commands :: "string \<Rightarrow> jsval \<Rightarrow> jsval list \<Rightarrow> rcmd list" where
  "tag_commands prefixedKey ex ts =
     concat (map (\<lambda>tag. [SAdd (getTagIndexKey tag) prefixedKey, Expire (getTagIndexKey tag) ex]) ts)"

definition set_try ::
  "env \<Rightarrow> world \<Rightarrow> int \<Rightarrow> string \<Rightarrow> (string \<times> jsval) list \<Rightarrow> (string \<times> jsval) list
     \<Rightarrow> (error + unit) \<times> world" where
  "set_try e w now prefixedKey fixedData fixedCtx =
     (case ensureConnected e w of
        (connected, w1) \<Rightarrow>
          if \<not> connected then (Inr (), w1)
          else
            (let cacheEntry = JObj [(''value'', JObj fixedData), (''lastModified'', JNum now),
                                    (''tags'', obj_get fixedCtx ''tags'')]
             in case JSON_stringify e cacheEntry of
                  None \<Rightarrow> (Inl StringifyError, w1)
                | Some serialized \<Rightarrow>
                    (case client_set e w1 now prefixedKey serialized
                            (obj_get fixedData ''revalidate'') of
                       (Inl err, w2) \<Rightarrow> (Inl err, w2)
                     | (Inr u, w2) \<Rightarrow>
                         (case iterate (obj_get fixedCtx ''tags'') of
                            Inl err \<Rightarrow> (Inl err, w2)
                          | Inr ts \<Rightarrow>
                              multi_exec e w2 now
                                (tag_commands prefixedKey (obj_get fixedData ''revalidate'') ts)))))"

text \<open>The two normalisations of \<open>set\<close>:
  \<open>Array.isArray(ctx.tags) ? ctx.tags : [ctx.tags]\<close> and
  \<open>typeof data.revalidate === "number" ? data.revalidate : DEFAULT_TTL\<close>.\<close>

definition fix_tags :: "jsval \<Rightarrow> jsval" where
  "fix_tags ctx_tags = (if isArray ctx_tags then ctx_tags else JArr [ctx_tags])"

definition fix_revalidate :: "jsval \<Rightarrow> jsval" where
  "fix_revalidate rv = (if typeof rv = ''number'' then rv else JNum DEFAULT_TTL)"

text \<open>\<open>set\<close>: the two normalisations stand before the \<open>try\<close>, so an error they throw
  rejects the promise \<open>set\<close> returns.\<close>

definition set_op :: "env \<Rightarrow> world \<Rightarrow> int \<Rightarrow> string \<Rightarrow> jsval \<Rightarrow> jsval \<Rightarrow> (error + unit) \<times> world" where
  "set_op e w now key data ctx =
     (let prefixedKey = CACHE_KEY_PREFIX @ key
      in case get_prop ctx ''tags'' of
           Inl err \<Rightarrow> (Inl err, w)
         | Inr ctx_tags \<Rightarrow>
             (let fixedCtx = obj_put (spread ctx) ''tags'' (fix_tags ctx_tags)
              in case get_prop data ''revalidate'' of
                   Inl err \<Rightarrow> (Inl err, w)
                 | Inr rv \<Rightarrow>
                     (let fixedData = obj_put (spread data) ''revalidate'' (fix_revalidate rv)
                      in try_catch (set_try e w now prefixedKey fixedData fixedCtx) ())))"

text \<open>The loop of \<open>revalidateTag\<close>; an error thrown in an iteration leaves the loop.\<close>

fun revalidate_loop :: "env \<Rightarrow> world \<Rightarrow> int \<Rightarrow> jsval list \<Rightarrow> (error + unit) \<times> world" where
  "revalidate_loop e w now [] = (Inr (), w)"
| "revalidate_loop e w now (tag # rest) =
     (let tagIndexKey = getTagIndexKey tag
      in case client_sMembers e w now tagIndexKey of
           (Inl err, w1) \<Rightarrow> (Inl err, w1)
         | (Inr cacheKeys, w1) \<Rightarrow>
             if length cacheKeys = 0 then revalidate_loop e w1 now rest
             else (case multi_exec e w1 now (map Del cacheKeys @ [Del tagIndexKey]) of
                     (Inl err, w2) \<Rightarrow> (Inl err, w2)
                   | (Inr u, w2) \<Rightarrow> revalidate_loop e w2 now rest))"

definition revalidateTag_try :: "env \<Rightarrow> world \<Rightarrow> int \<Rightarrow> jsval \<Rightarrow> (error + unit) \<times> world" where
  "revalidateTag_try e w now tagArray =
     (case ensureConnected e w of
        (connected, w1) \<Rightarrow>
          if \<not> connected then (Inr (), w1)
          else (case iterate tagArray of
                  Inl err \<Rightarrow> (Inl err, w1)
                | Inr ts \<Rightarrow> revalidate_loop e w1 now ts))"

definition revalidateTag :: "env \<Rightarrow> world \<Rightarrow> int \<Rightarrow> jsval \<Rightarrow> (error + unit) \<times> world" where
  "revalidateTag e w now tags =
     (let tagArray = (if isArray tags then tags else JArr [tags])
      in try_catch (revalidateTag_try e w now tagArray) ())"

definition resetRequestCache :: "world \<Rightarrow> world" where
  "resetRequestCache w = w"

definition disconnect :: "env \<Rightarrow> world \<Rightarrow> (error + unit) \<times> world" where
  "disconnect e w =
     (if redisClient w \<and> isConnected w
      then try_catch (case client_quit e w of
                        (Inl err, w1) \<Rightarrow> (Inl err, w1)
                      | (Inr u, w1) \<Rightarrow> (Inr (), w1\<lparr>isConnected := False\<rparr>)) ()
      else (Inr (), w))"

text \<open>
  Callers that overlap: a schedule is a sequence of steps, each a call of
  \<open>ensureConnected\<close> (up to its suspension) or one of the client's events, all before
  the pending \<open>connect()\<close> settles. \<open>run_steps\<close> gives what each call returned.
\<close>

datatype step = Call | EvError | EvDisconnect | EvConnect

fun run_steps :: "env \<Rightarrow> step list \<Rightarrow> world \<Rightarrow> connecting list \<times> world" where
  "run_steps e [] w = ([], w)"
| "run_steps e (Call # ss) w =
     (case ensureConnected_call e w of
        (r, w') \<Rightarrow> (case run_steps e ss w' of (rs, w'') \<Rightarrow> (r # rs, w'')))"
| "run_steps e (EvError # ss) w = run_steps e ss (on_error w)"
| "run_steps e (EvDisconnect # ss) w = run_steps e ss (on_disconnect w)"
| "run_steps e (EvConnect # ss) w = run_steps e ss (on_connect w)"

subsection \<open>Notions used in the statements\<close>

text \<open>The list the loops of \<open>set\<close> and \<open>revalidateTag\<close> run over: the elements of an
  array, or the single value that was wrapped.\<close>

definition tags_of :: "jsval \<Rightarrow> jsval list" where
  "tags_of ctx_tags = (case ctx_tags of JArr xs \<Rightarrow> xs | _ \<Rightarrow> [ctx_tags])"

text \<open>What \<open>SET key txt EX n\<close> leaves under the key at time \<open>now\<close>.\<close>

definition written :: "string \<Rightarrow> int \<Rightarrow> int \<Rightarrow> rentry" where
  "written txt now n = \<lparr>rval = RString txt, expires = Some (now + n * 1000)\<rparr>"

text \<open>The two commands \<open>set\<close> queues for one tag.\<close>

definition index_step :: "int \<Rightarrow> string \<Rightarrow> string \<Rightarrow> int \<Rightarrow> rstore \<Rightarrow> rstore" where
  "index_step now tk pk n s =
     snd (redis_apply now (Expire tk (JNum n)) (snd (redis_apply now (SAdd tk pk) s)))"




text \<open>Every key of \<open>s'\<close> is as in \<open>s\<close> or present with expiry \<open>x\<close>.\<close>

definition stamped :: "rstore \<Rightarrow> rstore \<Rightarrow> int \<Rightarrow> bool" where
  "stamped s s' x = (\<forall>k. s' k = s k \<or> (\<exists>en. s' k = Some en \<and> expires en = Some x))"

subsection \<open>Concrete environments for the examples\<close>

text \<open>
  An environment whose JSON functions are given by a table of documents and their
  texts: \<open>JSON.stringify\<close> of a listed document is its text, \<open>JSON.parse\<close> of a listed
  text is its document. The texts of \<open>demo_docs\<close> are what JavaScript prints for the
  envelopes beside them.
\<close>

definition table_env :: "(nat \<Rightarrow> outcome) \<Rightarrow> (jsval \<times> string) list \<Rightarrow> env" where
  "table_env f tbl = \<lparr>faults = f, JSON_stringify = map_of tbl,
      JSON_parse = map_of (map (\<lambda>(v, t). (t, v)) tbl)\<rparr>"

definition envelope :: "jsval \<Rightarrow> int \<Rightarrow> int \<Rightarrow> string \<Rightarrow> jsval" where
  "envelope v n now t =
     JObj [(''value'', JObj [(''value'', v), (''revalidate'', JNum n)]),
           (''lastModified'', JNum now), (''tags'', JArr [JStr t])]"

definition demo_docs :: "(jsval \<times> string) list" where
  \<open>demo_docs =
     [(envelope (JStr ''<rendered/>'') 84600 0 ''tenant:acme'',
       ''{"value":{"value":"<rendered/>","revalidate":84600},"lastModified":0,"tags":["tenant:acme"]}''),
      (envelope (JStr ''<rendered/>'') 0 0 ''tenant:acme'',
       ''{"value":{"value":"<rendered/>","revalidate":0},"lastModified":0,"tags":["tenant:acme"]}''),
      (envelope (JStr ''A'') 1000 0 ''t'',
       ''{"value":{"value":"A","revalidate":1000},"lastModified":0,"tags":["t"]}''),
      (envelope (JStr ''B'') 10 0 ''t'',
       ''{"value":{"value":"B","revalidate":10},"lastModified":0,"tags":["t"]}''),
      (envelope (JStr ''B'') 10 0 ''u'',
       ''{"value":{"value":"B","revalidate":10},"lastModified":0,"tags":["u"]}'')]\<close>

text \<open>No interaction fails; every interaction fails; only the \<open>n\<close>-th one fails.\<close>

definition demo_env :: env where
  "demo_env = table_env (\<lambda>i. Ok) demo_docs"

definition down_env :: env where
  "down_env = table_env (\<lambda>i. Fail) demo_docs"

definition fail_at :: "nat \<Rightarrow> env" where
  "fail_at n = table_env (\<lambda>i. if i = n then Fail else Ok) demo_docs"

text \<open>A handler that has a client: just constructed, and after the client's
  \<open>connect\<close> event.\<close>

definition fresh_world :: world where
  "fresh_world = CacheHandler_constructor (Some ''redis://localhost:6379'') False Map.empty"

definition demo_world :: world where
  "demo_world = on_connect fresh_world"


definition payload_ttl :: "string \<Rightarrow> int \<Rightarrow> jsval" where
  "payload_ttl v n = JObj [(''value'', JStr v), (''revalidate'', JNum n)]"

definition tagged :: "string \<Rightarrow> jsval" where
  "tagged t = JObj [(''tags'', JStr t)]"


definition two_tags :: world where
  "two_tags =
     snd (set_op demo_env
            (snd (set_op demo_env demo_world 0 ''a'' (payload_ttl ''A'' 1000) (tagged ''t'')))
            0 ''b'' (payload_ttl ''B'' 10) (tagged ''u''))"

section \<open>Lemmas about the model\<close>

subsection \<open>JavaScript helpers and the connection\<close>

lemma iterate_fix_tags: "iterate (fix_tags T) = Inr (tags_of T)"
  by (cases T) (simp_all add: fix_tags_def tags_of_def)

lemma obj_get_obj_put: "obj_get (obj_put ps p v) p = v"
  by (induction ps p v rule: obj_put.induct) (simp_all add: obj_get_def)

lemma obj_get_obj_put_other: "q \<noteq> p \<Longrightarrow> obj_get (obj_put ps p v) q = obj_get ps q"
  by (induction ps p v rule: obj_put.induct) (simp_all add: obj_get_def)

lemma ensureConnected_connected:
  "redisClient w \<Longrightarrow> isConnected w \<Longrightarrow> ensureConnected e w = (True, w)"
  by (simp add: ensureConnected_def ensureConnected_call_def)

lemma fst_try_catch: "\<exists>v. fst (try_catch r d) = Inr v"
  by (cases r) (auto simp: try_catch_def split: sum.splits)

lemma snd_try_catch: "snd (try_catch r d) = snd r"
  by (cases r) (auto simp: try_catch_def split: sum.splits)


subsection \<open>The transaction of set\<close>

lemma tag_commands_Nil: "tag_commands pk ex [] = []"
  by (simp add: tag_commands_def)

lemma tag_commands_Cons:
  "tag_commands pk ex (t # ts) =
     SAdd (getTagIndexKey t) pk # Expire (getTagIndexKey t) ex # tag_commands pk ex ts"
  by (simp add: tag_commands_def)

lemma snd_redis_exec_Cons:
  "snd (redis_exec now (c # cs) s) = snd (redis_exec now cs (snd (redis_apply now c s)))"
  by (simp add: case_prod_beta)

lemma index_step_other: "k \<noteq> tk \<Longrightarrow> index_step now tk pk n s k = s k"
  by (auto simp: index_step_def rlookup_def split: option.splits rvalue.splits)

lemma index_step_expires:
  "0 < n \<Longrightarrow> \<exists>en. index_step now tk pk n s tk = Some en \<and> expires en = Some (now + n * 1000)"
  by (auto simp: index_step_def rlookup_def live_def split: option.splits rvalue.splits)



lemma exec_tag_commands_Cons:
  "snd (redis_exec now (tag_commands pk (JNum n) (t # ts)) s) =
     snd (redis_exec now (tag_commands pk (JNum n) ts) (index_step now (getTagIndexKey t) pk n s))"
  by (simp only: tag_commands_Cons snd_redis_exec_Cons index_step_def)



subsection \<open>The transaction of revalidateTag\<close>

lemma redis_exec_dels:
  "redis_exec now (map Del ks) s = (False, \<lambda>k. if k \<in> set ks then None else s k)"
proof (induction ks arbitrary: s)
  case Nil
  then show ?case by simp
next
  case (Cons a ks)
  show ?case by (simp add: Cons.IH fun_eq_iff)
qed

lemma redis_exec_append:
  "redis_exec now (cs @ ds) s =
     (case redis_exec now cs s of
        (err, s') \<Rightarrow> (case redis_exec now ds s' of (err', s'') \<Rightarrow> (err \<or> err', s'')))"
  by (induction cs arbitrary: s) (auto split: prod.splits)

lemma redis_exec_revalidate:
  "redis_exec now (map Del ks @ [Del tk]) s =
     (False, \<lambda>k. if k \<in> set ks \<or> k = tk then None else s k)"
  by (simp add: redis_exec_append redis_exec_dels fun_eq_iff)






lemma revalidateTag_single:
  assumes "redisClient w" "isConnected w" "faults e (calls w) = Ok" "faults e (Suc (calls w)) = Ok"
  shows "store (snd (revalidateTag e w now (JStr t))) =
     (case redis_smembers (store w) now (getTagIndexKey (JStr t)) of
        Inl err \<Rightarrow> store w
      | Inr ks \<Rightarrow> if ks = [] then store w
                  else (\<lambda>k. if k \<in> set ks \<or> k = getTagIndexKey (JStr t) then None else store w k))"
    and "redisClient (snd (revalidateTag e w now (JStr t)))"
    and "isConnected (snd (revalidateTag e w now (JStr t)))"
    and "calls (snd (revalidateTag e w now (JStr t))) \<le> calls w + 2"
  using assms
  by (auto simp: revalidateTag_def revalidateTag_try_def snd_try_catch ensureConnected_connected
      client_sMembers_def tick_def multi_exec_def redis_exec_revalidate Let_def
      split: sum.splits)




lemma revalidate_loop_append:
  "revalidate_loop e w now (pre @ rest) =
     (case revalidate_loop e w now pre of
        (Inl err, w1) \<Rightarrow> (Inl err, w1)
      | (Inr u, w1) \<Rightarrow> revalidate_loop e w1 now rest)"
  by (induction pre arbitrary: w) (auto simp: Let_def split: prod.splits sum.splits)

lemma multi_exec_dels_rejects:
  "fst (multi_exec e w now (map Del ks @ [Del tk])) = Inl err \<Longrightarrow>
     snd (multi_exec e w now (map Del ks @ [Del tk])) = tick w"
  by (auto simp: multi_exec_def redis_exec_revalidate split: outcome.splits)

lemma client_sMembers_world: "snd (client_sMembers e w now k) = tick w"
  by (simp add: client_sMembers_def split: outcome.splits)

subsection \<open>Overlapping callers\<close>

lemma run_steps_pending:
  assumes "redisClient w" "\<not> isConnected w" "connectionPromise w = Some p" "EvConnect \<notin> set ss"
  shows "(\<forall>r \<in> set (fst (run_steps e ss w)). r = Later p) \<and>
         length (fst (run_steps e ss w)) = count_list ss Call \<and>
         connects (snd (run_steps e ss w)) = connects w \<and>
         sockets (snd (run_steps e ss w)) = sockets w \<and>
         connectionPromise (snd (run_steps e ss w)) = Some p \<and>
         redisClient (snd (run_steps e ss w)) \<and> \<not> isConnected (snd (run_steps e ss w))"
  using assms
proof (induction ss arbitrary: w)
  case Nil
  then show ?case by simp
next
  case (Cons a ss)
  show ?case
  proof (cases a)
    case Call
    have "ensureConnected_call e w = (Later p, w)"
      using Cons.prems by (simp add: ensureConnected_call_def)
    moreover have "EvConnect \<notin> set ss" using Cons.prems by simp
    ultimately show ?thesis
      using Cons.IH [of w] Cons.prems Call by (simp add: case_prod_beta)
  next
    case EvError
    then show ?thesis
      using Cons.IH [of "on_error w"] Cons.prems by (simp add: on_error_def)
  next
    case EvDisconnect
    then show ?thesis
      using Cons.IH [of "on_disconnect w"] Cons.prems by (simp add: on_disconnect_def)
  next
    case EvConnect
    then show ?thesis using Cons.prems by simp
  qed
qed

lemma client_connect_fields:
  "connects (snd (client_connect e w)) = connects w + 1"
  "redisClient (snd (client_connect e w)) = redisClient w"
  "isConnected (snd (client_connect e w)) = isConnected w"
  "connectionPromise (snd (client_connect e w)) = connectionPromise w"
  "store (snd (client_connect e w)) = store w"
  by (simp_all add: client_connect_def case_prod_beta)

lemma client_connect_flag:
  "fst (client_connect e (w\<lparr>isConnected := b\<rparr>)) = fst (client_connect e w)"
  by (simp add: client_connect_def case_prod_beta)

subsection \<open>Keys that change carry an expiry\<close>

lemma stamped_refl: "stamped s s x"
  by (simp add: stamped_def)

lemma stamped_written: "stamped s (s(pk \<mapsto> written txt now n)) (now + n * 1000)"
  by (simp add: stamped_def written_def)

lemma index_step_stamped:
  assumes "0 < n" "stamped s0 s (now + n * 1000)"
  shows "stamped s0 (index_step now tk pk n s) (now + n * 1000)"
  unfolding stamped_def
proof
  fix k
  show "index_step now tk pk n s k = s0 k \<or>
      (\<exists>en. index_step now tk pk n s k = Some en \<and> expires en = Some (now + n * 1000))"
  proof (cases "k = tk")
    case True
    then show ?thesis using index_step_expires [OF assms(1), of now tk pk s] by simp
  next
    case False
    then show ?thesis using assms(2) by (simp add: index_step_other stamped_def)
  qed
qed

lemma exec_tag_commands_stamped:
  "0 < n \<Longrightarrow> stamped s0 s (now + n * 1000) \<Longrightarrow>
     stamped s0 (snd (redis_exec now (tag_commands pk (JNum n) ts) s)) (now + n * 1000)"
proof (induction ts arbitrary: s)
  case Nil
  then show ?case by (simp add: tag_commands_Nil)
next
  case (Cons t ts)
  have "stamped s0 (index_step now (getTagIndexKey t) pk n s) (now + n * 1000)"
    using Cons.prems by (rule index_step_stamped)
  then have "stamped s0 (snd (redis_exec now (tag_commands pk (JNum n) ts)
      (index_step now (getTagIndexKey t) pk n s))) (now + n * 1000)"
    using Cons.IH Cons.prems(1) by blast
  then show ?case by (simp only: exec_tag_commands_Cons)
qed

lemma ensureConnected_store: "store (snd (ensureConnected e w)) = store w"
  by (auto simp: ensureConnected_def ensureConnected_call_def connect_settled_def
      client_connect_def case_prod_beta split: option.splits)

lemma client_set_store:
  "store (snd (client_set e w now pk txt ex)) = store w \<or>
   (\<exists>n. ex = JNum n \<and> 0 < n \<and> fst (client_set e w now pk txt ex) = Inr () \<and>
     store (snd (client_set e w now pk txt ex)) = (store w)(pk \<mapsto> written txt now n))"
  by (auto simp: client_set_def redis_set_def tick_def written_def
      split: outcome.splits jsval.splits)

lemma client_set_rejects_store:
  "fst (client_set e w now pk txt ex) = Inl err \<Longrightarrow> store (snd (client_set e w now pk txt ex)) = store w"
  by (auto simp: client_set_def redis_set_def tick_def split: outcome.splits jsval.splits if_splits)

lemma multi_exec_store:
  "store (snd (multi_exec e w now cmds)) = store w \<or>
   store (snd (multi_exec e w now cmds)) = snd (redis_exec now cmds (store w))"
  by (auto simp: multi_exec_def tick_def case_prod_beta split: outcome.splits)

lemma set_try_stamped:
  "store (snd (set_try e w now pk fd fc)) = store w \<or>
   (\<exists>n. obj_get fd ''revalidate'' = JNum n \<and> 0 < n \<and>
      stamped (store w) (store (snd (set_try e w now pk fd fc))) (now + n * 1000))"
proof -
  obtain c w1 where ec: "ensureConnected e w = (c, w1)" by (cases "ensureConnected e w")
  then have s1: "store w1 = store w" using ensureConnected_store [of e w] by simp
  let ?entry = "JObj [(''value'', JObj fd), (''lastModified'', JNum now), (''tags'', obj_get fc ''tags'')]"
  let ?ex = "obj_get fd ''revalidate''"
  show ?thesis
  proof (cases "c \<and> JSON_stringify e ?entry \<noteq> None")
    case False
    then show ?thesis using ec s1 by (auto simp: set_try_def Let_def)
  next
    case True
    then obtain doc where ser: "JSON_stringify e ?entry = Some doc" and c: "c" by auto
    obtain r w2 where cs: "client_set e w1 now pk doc ?ex = (r, w2)"
      by (cases "client_set e w1 now pk doc ?ex")
    show ?thesis
    proof (cases r)
      case (Inl err)
      then have "store w2 = store w"
        using client_set_rejects_store [of e w1 now pk doc ?ex err] cs s1 by simp
      then show ?thesis using ec c ser cs Inl by (simp add: set_try_def Let_def)
    next
      case (Inr u)
      then obtain n where n: "?ex = JNum n" "0 < n"
          and w2: "store w2 = (store w)(pk \<mapsto> written doc now n)"
        using client_set_store [of e w1 now pk doc ?ex] cs s1
        by (auto simp: client_set_def redis_set_def tick_def written_def
            split: outcome.splits jsval.splits if_splits)
      have st2: "stamped (store w) (store w2) (now + n * 1000)"
        unfolding w2 by (rule stamped_written)
      show ?thesis
      proof (cases "iterate (obj_get fc ''tags'')")
        case (Inl err)
        then show ?thesis using ec c ser cs Inr n st2 by (auto simp: set_try_def Let_def)
      next
        case (Inr ts)
        let ?cmds = "tag_commands pk (JNum n) ts"
        have res: "set_try e w now pk fd fc = multi_exec e w2 now ?cmds"
          using ec c ser cs \<open>r = Inr u\<close> Inr n by (simp add: set_try_def Let_def)
        have "stamped (store w) (snd (redis_exec now ?cmds (store w2))) (now + n * 1000)"
          using n(2) st2 by (rule exec_tag_commands_stamped)
        then have "stamped (store w) (store (snd (multi_exec e w2 now ?cmds))) (now + n * 1000)"
          using multi_exec_store [of e w2 now ?cmds] st2 by auto
        then show ?thesis using res n by auto
      qed
    qed
  qed
qed

lemma revalidate_loop_store:
  "store (snd (revalidate_loop e w now ts)) k = store w k \<or>
   store (snd (revalidate_loop e w now ts)) k = None"
proof (induction ts arbitrary: w)
  case Nil
  then show ?case by simp
next
  case (Cons t ts)
  let ?tk = "getTagIndexKey t"
  obtain r w1 where sm: "client_sMembers e w now ?tk = (r, w1)" by (cases "client_sMembers e w now ?tk")
  have w1: "store w1 = store w" using client_sMembers_world [of e w now ?tk] sm by (simp add: tick_def)
  show ?case
  proof (cases r)
    case (Inl err)
    then show ?thesis using sm w1 by simp
  next
    case (Inr ks)
    show ?thesis
    proof (cases "ks = []")
      case True
      then show ?thesis using sm w1 Inr Cons.IH [of w1] by simp
    next
      case False
      obtain r2 w2 where me: "multi_exec e w1 now (map Del ks @ [Del ?tk]) = (r2, w2)"
        by (cases "multi_exec e w1 now (map Del ks @ [Del ?tk])")
      have w2: "store w2 k = store w k \<or> store w2 k = None"
        using multi_exec_store [of e w1 now "map Del ks @ [Del ?tk]"] me w1
        by (auto simp: redis_exec_revalidate split: if_splits)
      show ?thesis
      proof (cases r2)
        case (Inl err)
        then show ?thesis using sm Inr False me w2 by simp
      next
        case (Inr u)
        then show ?thesis using sm \<open>r = Inr ks\<close> False me w2 Cons.IH [of w2] by auto
      qed
    qed
  qed
qed

lemma get_store: "store (snd (get e w now key)) = store w"
proof -
  obtain c w1 where ec: "ensureConnected e w = (c, w1)" by (cases "ensureConnected e w")
  then have "store w1 = store w" using ensureConnected_store [of e w] by simp
  then show ?thesis
    using ec
    by (auto simp: get_def get_try_def snd_try_catch client_get_def tick_def Let_def
        split: outcome.splits sum.splits option.splits)
qed

subsection \<open>Expiry of the index keys\<close>







subsection \<open>Errors are swallowed\<close>

lemma get_resolves: "\<exists>v. fst (get e w now key) = Inr v"
  by (simp add: get_def fst_try_catch)

lemma revalidateTag_resolves: "fst (revalidateTag e w now tags) = Inr ()"
  using fst_try_catch [of "revalidateTag_try e w now (if isArray tags then tags else JArr [tags])" "()"]
  by (simp add: revalidateTag_def)

lemma set_op_resolves:
  "get_prop ctx ''tags'' = Inr T \<Longrightarrow> get_prop data ''revalidate'' = Inr rv \<Longrightarrow>
     fst (set_op e w now key data ctx) = Inr ()"
  using fst_try_catch [where d = "()"]
  by (simp add: set_op_def Let_def)

subsection \<open>A client that cannot connect\<close>

lemma socket_loop_give_up:
  assumes "\<forall>i. faults e i = Fail"
  shows "socket_loop e c 0 = (False, c + 5)"
proof -
  have 4: "socket_loop e (c + 4) 4 = (False, c + 5)"
    using assms by (subst socket_loop.simps) (simp add: reconnectStrategy_def)
  have 3: "socket_loop e (c + 3) 3 = (False, c + 5)"
    using assms 4 by (subst socket_loop.simps) (simp add: reconnectStrategy_def numeral_eq_Suc)
  have 2: "socket_loop e (c + 2) 2 = (False, c + 5)"
    using assms 3 by (subst socket_loop.simps) (simp add: reconnectStrategy_def numeral_eq_Suc)
  have 1: "socket_loop e (c + 1) 1 = (False, c + 5)"
    using assms 2 by (subst socket_loop.simps) (simp add: reconnectStrategy_def numeral_eq_Suc)
  show ?thesis
    using assms 1 by (subst socket_loop.simps) (simp add: reconnectStrategy_def)
qed

lemma ensureConnected_give_up:
  assumes "redisClient w" "\<not> isConnected w" "connectionPromise w = None" "\<forall>i. faults e i = Fail"
  shows "ensureConnected e w =
     (False, w\<lparr>connects := connects w + 1, sockets := sockets w + 5, calls := calls w + 5\<rparr>)"
  using assms
  by (simp add: ensureConnected_def ensureConnected_call_def client_connect_def
      socket_loop_give_up connect_settled_def)

subsection \<open>Further facts\<close>

text \<open>What \<open>get\<close> can return: absent, or what \<open>JSON.parse\<close> made of a stored text.\<close>

lemma get_result:
  "fst (get e w now key) = Inr JUndefined \<or>
   (\<exists>doc v. JSON_parse e doc = Some v \<and> fst (get e w now key) = Inr v)"
  by (auto simp: get_def get_try_def try_catch_def Let_def
      split: prod.splits sum.splits option.splits)

text \<open>Whatever is thrown inside \<open>get\<close> becomes absent, and so does a handler that
  is not connected.\<close>

lemma get_absent_on_error:
  "fst (get_try e w now (CACHE_KEY_PREFIX @ key)) = Inl err \<Longrightarrow> fst (get e w now key) = Inr JUndefined"
  by (cases "get_try e w now (CACHE_KEY_PREFIX @ key)") (simp add: get_def try_catch_def)

lemma get_absent_unconnected:
  "\<not> fst (ensureConnected e w) \<Longrightarrow> fst (get e w now key) = Inr JUndefined"
  by (simp add: get_def get_try_def try_catch_def case_prod_beta)

text \<open>\<open>revalidateTag(t)\<close> in terms of the store alone: a key that is a member of the
  live index of \<open>t\<close> is removed, and so is the index.\<close>

lemma revalidateTag_removes_members:
  assumes "redisClient w" "isConnected w" "faults e (calls w) = Ok" "faults e (Suc (calls w)) = Ok"
    and "store w (getTagIndexKey (JStr t)) = Some en" "live now en" "rval en = RSet ms"
    and "pk \<in> set ms"
  shows "store (snd (revalidateTag e w now (JStr t))) pk = None \<and>
         store (snd (revalidateTag e w now (JStr t))) (getTagIndexKey (JStr t)) = None"
proof -
  have "redis_smembers (store w) now (getTagIndexKey (JStr t)) = Inr ms"
    using assms(5-7) by (simp add: redis_smembers_def rlookup_def)
  moreover have "ms \<noteq> []" using assms(8) by auto
  ultimately show ?thesis
    using revalidateTag_single(1) [OF assms(1-4), of now t] assms(8) by simp
qed

text \<open>The default is 23.5 hours, not the 24 hours of the comment beside it.\<close>

lemma DEFAULT_TTL_seconds: "DEFAULT_TTL = 24 * 3600 - 1800"
  by (simp add: DEFAULT_TTL_def)

subsection \<open>The example environments\<close>



lemma down_all_faults: "\<forall>i. faults down_env i = Fail"
  by (simp add: down_env_def table_env_def)

section \<open>The claims\<close>







text \<open>
  C3. \<open>get\<close> and \<open>revalidateTag\<close> never reject, whatever the input and whatever
  fails (lemmas \<open>get_resolves\<close>, \<open>revalidateTag_resolves\<close>), and \<open>set\<close> does not
  reject when the payload and the context are neither \<open>null\<close> nor \<open>undefined\<close>
  (\<open>set_op_resolves\<close>). But \<open>set\<close> reads \<open>ctx.tags\<close> and \<open>data.revalidate\<close> before its
  \<open>try\<close>: with a payload or a context that is \<open>null\<close> or \<open>undefined\<close> the promise it
  returns is rejected with a TypeError, in every state of the handler and the store.
\<close>

theorem set_rejects_without_data:
  "fst (set_op e w now key JNull ctx) = Inl TypeError \<and>
   fst (set_op e w now key JUndefined ctx) = Inl TypeError \<and>
   fst (set_op e w now key data JNull) = Inl TypeError \<and>
   fst (set_op e w now key data JUndefined) = Inl TypeError"
  by (cases "get_prop ctx ''tags''"; cases ctx) (simp_all add: set_op_def)

text \<open>
  C4. When \<open>connect()\<close> has given up (the retry ceiling was exceeded), the handler is
  left with its client, not connected and without a pending promise. In that state,
  with the server still unreachable, each of \<open>get\<close>, \<open>set\<close> and \<open>revalidateTag\<close>
  resolves with a miss or nothing done, but only after calling \<open>connect()\<close> again,
  which makes five more socket attempts; and it leaves the handler in the same state,
  so the next call does the same.
\<close>

theorem every_call_connects_again:
  assumes "redisClient w" "\<not> isConnected w" "connectionPromise w = None"
    and "\<forall>i. faults e i = Fail"
  shows "get e w now key =
           (Inr JUndefined,
            w\<lparr>connects := connects w + 1, sockets := sockets w + 5, calls := calls w + 5\<rparr>) \<and>
         set_op e w now key (JObj d) (JObj c) =
           (Inr (),
            w\<lparr>connects := connects w + 1, sockets := sockets w + 5, calls := calls w + 5\<rparr>) \<and>
         revalidateTag e w now tags =
           (Inr (),
            w\<lparr>connects := connects w + 1, sockets := sockets w + 5, calls := calls w + 5\<rparr>)"
  using assms
  by (simp add: get_def get_try_def set_op_def set_try_def revalidateTag_def
      revalidateTag_try_def try_catch_def ensureConnected_give_up Let_def)

theorem every_call_connects_again_witness:
  "connects (snd (get down_env fresh_world 0 ''k'')) = 1 \<and>
   sockets (snd (get down_env fresh_world 0 ''k'')) = 5 \<and>
   fst (get down_env (snd (get down_env fresh_world 0 ''k'')) 1 ''k'') = Inr JUndefined \<and>
   connects (snd (get down_env (snd (get down_env fresh_world 0 ''k'')) 1 ''k'')) = 2 \<and>
   sockets (snd (get down_env (snd (get down_env fresh_world 0 ''k'')) 1 ''k'')) = 10"
proof -
  have f: "redisClient fresh_world" "\<not> isConnected fresh_world" "connectionPromise fresh_world = None"
    "connects fresh_world = 0" "sockets fresh_world = 0"
    by (simp_all add: fresh_world_def CacheHandler_constructor_def)
  let ?w1 = "fresh_world\<lparr>connects := connects fresh_world + 1, sockets := sockets fresh_world + 5,
                calls := calls fresh_world + 5\<rparr>"
  have g1: "get down_env fresh_world 0 ''k'' = (Inr JUndefined, ?w1)"
    using every_call_connects_again [OF f(1,2,3) down_all_faults] by blast
  have f1: "redisClient ?w1" "\<not> isConnected ?w1" "connectionPromise ?w1 = None"
    using f by simp_all
  have g2: "get down_env ?w1 1 ''k'' =
      (Inr JUndefined, ?w1\<lparr>connects := connects ?w1 + 1, sockets := sockets ?w1 + 5,
                calls := calls ?w1 + 5\<rparr>)"
    using every_call_connects_again [OF f1 down_all_faults] by blast
  show ?thesis
    unfolding g1 using g2 f by simp
qed

text \<open>
  C5 (as amended). \<open>revalidateTag\<close> with a list of tags has one \<open>try\<close> around its loop.
  When the tags before some tag were processed and a store command for that tag is
  rejected (the read of its index, or the transaction that deletes its members),
  \<open>revalidateTag\<close> resolves normally and the loop ends there: the store is left as it
  was after the earlier tags, and at most two more commands were sent, so no tag after
  the failing one is read or has its members deleted.
\<close>

theorem revalidateTag_stops_at_failure:
  assumes conn: "redisClient w" "isConnected w"
    and pre: "revalidate_loop e w now pre = (Inr (), w1)"
    and fails: "fst (client_sMembers e w1 now (getTagIndexKey tag)) = Inl err \<or>
       (fst (client_sMembers e w1 now (getTagIndexKey tag)) = Inr ks \<and> ks \<noteq> [] \<and>
        fst (multi_exec e (tick w1) now (map Del ks @ [Del (getTagIndexKey tag)])) = Inl err)"
  shows "fst (revalidateTag e w now (JArr (pre @ tag # rest))) = Inr () \<and>
         store (snd (revalidateTag e w now (JArr (pre @ tag # rest)))) = store w1 \<and>
         calls (snd (revalidateTag e w now (JArr (pre @ tag # rest)))) \<le> calls w1 + 2"
proof -
  let ?tk = "getTagIndexKey tag"
  have step: "\<exists>err' w2. revalidate_loop e w1 now (tag # rest) = (Inl err', w2) \<and>
      store w2 = store w1 \<and> calls w2 \<le> calls w1 + 2"
  proof -
    obtain r wa where sm: "client_sMembers e w1 now ?tk = (r, wa)" by (cases "client_sMembers e w1 now ?tk")
    have wa: "wa = tick w1" using client_sMembers_world [of e w1 now ?tk] sm by simp
    from fails show ?thesis
    proof
      assume "fst (client_sMembers e w1 now ?tk) = Inl err"
      then show ?thesis using sm wa by (simp add: tick_def)
    next
      assume a: "fst (client_sMembers e w1 now ?tk) = Inr ks \<and> ks \<noteq> [] \<and>
        fst (multi_exec e (tick w1) now (map Del ks @ [Del ?tk])) = Inl err"
      obtain r2 wb where me: "multi_exec e (tick w1) now (map Del ks @ [Del ?tk]) = (r2, wb)"
        by (cases "multi_exec e (tick w1) now (map Del ks @ [Del ?tk])")
      have "wb = tick (tick w1)"
        using multi_exec_dels_rejects [of e "tick w1" now ks ?tk err] a me by simp
      then show ?thesis using a sm wa me by (simp add: tick_def)
    qed
  qed
  then obtain err' w2 where l: "revalidate_loop e w1 now (tag # rest) = (Inl err', w2)"
    and w2: "store w2 = store w1" "calls w2 \<le> calls w1 + 2" by blast
  have "revalidate_loop e w now (pre @ tag # rest) = (Inl err', w2)"
    using pre l by (simp add: revalidate_loop_append)
  then have "revalidateTag e w now (JArr (pre @ tag # rest)) = (Inr (), w2)"
    using conn by (simp add: revalidateTag_def revalidateTag_try_def ensureConnected_connected
        try_catch_def)
  then show ?thesis using w2 by simp
qed

theorem revalidateTag_stops_at_failure_witness:
  "fst (revalidateTag (fail_at 6) two_tags 1 (JArr ([JStr ''u''] @ JStr ''t'' # [JStr ''x'']))) = Inr () \<and>
   store (snd (revalidateTag (fail_at 6) two_tags 1 (JArr ([JStr ''u''] @ JStr ''t'' # [JStr ''x''])))) =
     store (snd (revalidate_loop (fail_at 6) two_tags 1 [JStr ''u''])) \<and>
   calls (snd (revalidateTag (fail_at 6) two_tags 1 (JArr ([JStr ''u''] @ JStr ''t'' # [JStr ''x''])))) \<le>
     calls (snd (revalidate_loop (fail_at 6) two_tags 1 [JStr ''u''])) + 2"
proof -
  let ?w1 = "snd (revalidate_loop (fail_at 6) two_tags 1 [JStr ''u''])"
  have c: "redisClient two_tags" "isConnected two_tags" by code_simp+
  have "fst (revalidate_loop (fail_at 6) two_tags 1 [JStr ''u'']) = Inr ()" by code_simp
  then have p: "revalidate_loop (fail_at 6) two_tags 1 [JStr ''u''] = (Inr (), ?w1)"
    by (simp add: prod_eq_iff)
  have "fst (client_sMembers (fail_at 6) ?w1 1 (getTagIndexKey (JStr ''t''))) = Inl ConnectionError"
    by code_simp
  then have f: "fst (client_sMembers (fail_at 6) ?w1 1 (getTagIndexKey (JStr ''t''))) = Inl ConnectionError \<or>
       (fst (client_sMembers (fail_at 6) ?w1 1 (getTagIndexKey (JStr ''t''))) = Inr [] \<and> [] \<noteq> [] \<and>
        fst (multi_exec (fail_at 6) (tick ?w1) 1 (map Del [] @ [Del (getTagIndexKey (JStr ''t''))]))
          = Inl ConnectionError)"
    by simp
  show ?thesis
    by (rule revalidateTag_stops_at_failure [OF c p f])
qed

text \<open>The claim as stated fails when the read of the first tag's index is rejected:
  the second tag's index is never read (one command was sent), its index and its
  member are still there, and the member is still served.\<close>

theorem revalidateTag_stops_at_failure_counterexample:
  "fst (client_sMembers (fail_at 4) two_tags 1 (getTagIndexKey (JStr ''t''))) = Inl ConnectionError \<and>
   calls (snd (revalidateTag (fail_at 4) two_tags 1 (JArr [JStr ''t'', JStr ''u'']))) =
     calls two_tags + 1 \<and>
   rlookup (store (snd (revalidateTag (fail_at 4) two_tags 1 (JArr [JStr ''t'', JStr ''u'']))))
     1 (getTagIndexKey (JStr ''u'')) \<noteq> None \<and>
   fst (get (fail_at 4) (snd (revalidateTag (fail_at 4) two_tags 1 (JArr [JStr ''t'', JStr ''u''])))
         1 ''b'') = Inr (envelope (JStr ''B'') 10 0 ''u'')"
  by code_simp







text \<open>
  C8. Let the handler have a client, not be connected and have no pending promise.
  For every schedule of calls of \<open>ensureConnected\<close> interleaved with \<open>error\<close> and
  \<open>disconnect\<close> events of the client (no \<open>connect\<close> event: no connection exists yet)
  that contains a call, \<open>connect()\<close> is called exactly once, every call returns the
  one pending promise, so all callers resolve with the outcome of that attempt, and
  when it settles the flag holds that outcome and the promise is cleared.
\<close>

theorem single_flight:
  assumes "redisClient w" "\<not> isConnected w" "connectionPromise w = None"
    and "EvConnect \<notin> set ss" "Call \<in> set ss"
  shows "connects (snd (run_steps e ss w)) = connects w + 1 \<and>
         (\<forall>r \<in> set (fst (run_steps e ss w)). r = Later (fst (client_connect e w))) \<and>
         length (fst (run_steps e ss w)) = count_list ss Call \<and>
         isConnected (connect_settled (snd (run_steps e ss w))) = fst (client_connect e w) \<and>
         connectionPromise (connect_settled (snd (run_steps e ss w))) = None"
  using assms
proof (induction ss arbitrary: w)
  case Nil
  then show ?case by simp
next
  case (Cons a ss)
  show ?case
  proof (cases a)
    case Call
    let ?p = "fst (client_connect e w)"
    let ?w' = "(snd (client_connect e w))\<lparr>connectionPromise := Some ?p\<rparr>"
    have call: "ensureConnected_call e w = (Later ?p, ?w')"
      using Cons.prems by (simp add: ensureConnected_call_def case_prod_beta)
    have "redisClient ?w'" "\<not> isConnected ?w'" "connectionPromise ?w' = Some ?p" "EvConnect \<notin> set ss"
      using Cons.prems by (simp_all add: client_connect_fields)
    from run_steps_pending [OF this, of e]
    show ?thesis
      using call Call by (simp add: case_prod_beta client_connect_fields connect_settled_def)
  next
    case EvError
    have "Call \<in> set ss" using Cons.prems EvError by simp
    then show ?thesis
      using Cons.IH [of "on_error w"] Cons.prems EvError
      by (simp add: on_error_def client_connect_flag)
  next
    case EvDisconnect
    have "Call \<in> set ss" using Cons.prems EvDisconnect by simp
    then show ?thesis
      using Cons.IH [of "on_disconnect w"] Cons.prems EvDisconnect
      by (simp add: on_disconnect_def client_connect_flag)
  next
    case EvConnect
    then show ?thesis using Cons.prems by simp
  qed
qed

theorem single_flight_witness:
  "connects (snd (run_steps demo_env [Call, Call, EvError, Call] fresh_world)) = 1 \<and>
   set (fst (run_steps demo_env [Call, Call, EvError, Call] fresh_world)) \<subseteq> {Later True} \<and>
   length (fst (run_steps demo_env [Call, Call, EvError, Call] fresh_world)) = 3 \<and>
   isConnected (connect_settled (snd (run_steps demo_env [Call, Call, EvError, Call] fresh_world))) \<and>
   connectionPromise (connect_settled (snd (run_steps demo_env [Call, Call, EvError, Call] fresh_world))) =
     None"
proof -
  have f: "redisClient fresh_world" "\<not> isConnected fresh_world" "connectionPromise fresh_world = None"
    by (simp_all add: fresh_world_def CacheHandler_constructor_def)
  have s: "EvConnect \<notin> set [Call, Call, EvError, Call]" "Call \<in> set [Call, Call, EvError, Call]"
    by simp_all
  have c: "connects fresh_world = 0" by (simp add: fresh_world_def CacheHandler_constructor_def)
  have p: "fst (client_connect demo_env fresh_world) = True" by code_simp
  show ?thesis
    using single_flight [OF f s, of demo_env] c p by auto
qed


text \<open>
  C10. Whatever the input, the state and the failures: every store key that \<open>set\<close>
  leaves different from before is present with a finite expiry, the time of the
  write plus the positive effective TTL; \<open>get\<close> leaves the store as it is; and
  \<open>revalidateTag\<close> only removes keys.
\<close>

theorem writes_carry_expiry:
  "(\<forall>k. store (snd (set_op e w now key data ctx)) k = store w k \<or>
        (\<exists>en rv n. store (snd (set_op e w now key data ctx)) k = Some en \<and>
           get_prop data ''revalidate'' = Inr rv \<and> fix_revalidate rv = JNum n \<and> 0 < n \<and>
           expires en = Some (now + n * 1000))) \<and>
   store (snd (get e w now key)) = store w \<and>
   (\<forall>k. store (snd (revalidateTag e w now tags)) k = store w k \<or>
        store (snd (revalidateTag e w now tags)) k = None)"
proof (intro conjI allI)
  fix k
  show "store (snd (set_op e w now key data ctx)) k = store w k \<or>
        (\<exists>en rv n. store (snd (set_op e w now key data ctx)) k = Some en \<and>
           get_prop data ''revalidate'' = Inr rv \<and> fix_revalidate rv = JNum n \<and> 0 < n \<and>
           expires en = Some (now + n * 1000))"
  proof (cases "get_prop ctx ''tags''")
    case (Inl err)
    then show ?thesis by (simp add: set_op_def)
  next
    case T: (Inr T)
    show ?thesis
    proof (cases "get_prop data ''revalidate''")
      case (Inl err)
      then show ?thesis using T by (simp add: set_op_def)
    next
      case (Inr rv)
      let ?fd = "obj_put (spread data) ''revalidate'' (fix_revalidate rv)"
      let ?fc = "obj_put (spread ctx) ''tags'' (fix_tags T)"
      have eq: "snd (set_op e w now key data ctx) = snd (set_try e w now (CACHE_KEY_PREFIX @ key) ?fd ?fc)"
        using T Inr by (simp add: set_op_def Let_def snd_try_catch)
      show ?thesis
        using set_try_stamped [of e w now "CACHE_KEY_PREFIX @ key" ?fd ?fc] Inr
        unfolding eq by (auto simp: obj_get_obj_put stamped_def)
    qed
  qed
next
  show "store (snd (get e w now key)) = store w" by (rule get_store)
next
  fix k
  obtain c w1 where ec: "ensureConnected e w = (c, w1)" by (cases "ensureConnected e w")
  then have s1: "store w1 = store w" using ensureConnected_store [of e w] by simp
  have it: "iterate (if isArray tags then tags else JArr [tags]) = Inr (tags_of tags)"
    using iterate_fix_tags [of tags] by (simp add: fix_tags_def)
  have "snd (revalidateTag e w now tags) =
      (if c then snd (revalidate_loop e w1 now (tags_of tags)) else w1)"
    using ec it
    by (simp add: revalidateTag_def revalidateTag_try_def snd_try_catch Let_def
        del: revalidate_loop.simps)
  then show "store (snd (revalidateTag e w now tags)) k = store w k \<or>
        store (snd (revalidateTag e w now tags)) k = None"
    using s1 revalidate_loop_store [of e w1 now "tags_of tags" k] by auto
qed

end
